theory Spec2Isabelle
  imports Complex_Main "HOL-Library.List_Lexorder"
begin

section \<open>Python strings\<close>

text \<open>
  A Python \<^verbatim>\<open>str\<close> is a sequence of Unicode code points, so a string is a list of
  natural numbers. The section headings of the input format are Chinese, and
  \<^verbatim>\<open>str.strip\<close>, \<^verbatim>\<open>str.splitlines\<close> and the regular expression class
  \<^verbatim>\<open>\s\<close> all work on code points, not on bytes. \<open>ustr\<close> embeds an ASCII literal.
\<close>

type_synonym ustring = "nat list"

definition ustr :: "string \<Rightarrow> ustring" where
  "ustr s = map of_char s"

text \<open>
  \<^verbatim>\<open>str.isspace\<close> on one code point. \<^verbatim>\<open>str.strip()\<close> and \<^verbatim>\<open>\s\<close> of
  \<^verbatim>\<open>re\<close> (on a \<^verbatim>\<open>str\<close> pattern) use the same set: U+0009..U+000D, U+001C..U+0020,
  U+0085, U+00A0, U+1680, U+2000..U+200A, U+2028, U+2029, U+202F, U+205F, U+3000.
\<close>

definition isspace :: "nat \<Rightarrow> bool" where
  "isspace c \<longleftrightarrow>
     (9 \<le> c \<and> c \<le> 13) \<or> (28 \<le> c \<and> c \<le> 32) \<or> c = 133 \<or> c = 160 \<or> c = 5760 \<or>
     (8192 \<le> c \<and> c \<le> 8202) \<or> c = 8232 \<or> c = 8233 \<or> c = 8239 \<or> c = 8287 \<or> c = 12288"

text \<open>
  The line boundaries of \<^verbatim>\<open>str.splitlines\<close>: LF, VT, FF, CR, FS, GS, RS, NEL, LS, PS
  (and CR LF as one boundary).
\<close>

definition is_linebreak :: "nat \<Rightarrow> bool" where
  "is_linebreak c \<longleftrightarrow>
     (10 \<le> c \<and> c \<le> 13) \<or> (28 \<le> c \<and> c \<le> 30) \<or> c = 133 \<or> c = 8232 \<or> c = 8233"

text \<open>\<^verbatim>\<open>s.strip()\<close>: leading and trailing whitespace removed.\<close>

definition strip :: "ustring \<Rightarrow> ustring" where
  "strip s = rev (dropWhile isspace (rev (dropWhile isspace s)))"

text \<open>
  \<^verbatim>\<open>s.splitlines()\<close>: the lines without their boundaries; a boundary at the very end
  opens no further line, and the empty string has no line.
\<close>

fun splitlines :: "ustring \<Rightarrow> ustring list" where
  "splitlines [] = []"
| "splitlines (c # cs) =
     (if c = 13 \<and> cs \<noteq> [] \<and> hd cs = 10 then [] # splitlines (tl cs)
      else if is_linebreak c then [] # splitlines cs
      else (case splitlines cs of [] \<Rightarrow> [[c]] | l # ls \<Rightarrow> (c # l) # ls))"

text \<open>\<^verbatim>\<open>sep.join(xs)\<close>.\<close>

fun join :: "ustring \<Rightarrow> ustring list \<Rightarrow> ustring" where
  "join sep [] = []"
| "join sep [x] = x"
| "join sep (x # y # ys) = x @ sep @ join sep (y # ys)"

section \<open>Section splitter: \<^verbatim>\<open>parse_sections\<close>\<close>

text \<open>
  \<^verbatim>\<open>heading_pattern.match(line)\<close> for the pattern \<^verbatim>\<open>^(#{1,6})\s+(.*)$\<close>: the result is
  the pair of groups. The run of \<^verbatim>\<open>#\<close> (code point 35) at the start must have length
  1 to 6 and be followed by whitespace; the greedy \<^verbatim>\<open>\s+\<close> takes the whole run of
  whitespace and group 2 is what is left. The pattern is only applied to a stripped line
  of \<^verbatim>\<open>splitlines\<close>, which holds no line feed (lemma \<open>splitlines_no_linebreak\<close>), so
  \<^verbatim>\<open>.\<close> matches each of its characters and \<^verbatim>\<open>$\<close> its end.
\<close>

definition heading_pattern_match :: "ustring \<Rightarrow> (ustring \<times> ustring) option" where
  "heading_pattern_match line =
     (let hashes = takeWhile (\<lambda>c. c = 35) line;
          rest = dropWhile (\<lambda>c. c = 35) line
      in if 1 \<le> length hashes \<and> length hashes \<le> 6 \<and> rest \<noteq> [] \<and> isspace (hd rest)
         then Some (hashes, dropWhile isspace rest)
         else None)"

text \<open>The local variables of \<^verbatim>\<open>parse_sections\<close> that the loop updates.\<close>

record scan =
  sections :: "ustring \<rightharpoonup> ustring"
  current_heading :: "ustring option"
  buffer :: "ustring list"

text \<open>One iteration of the loop over \<^verbatim>\<open>splitlines()\<close> (source lines 58 to 67).\<close>

definition scan_line :: "scan \<Rightarrow> ustring \<Rightarrow> scan" where
  "scan_line st raw_line =
     (case heading_pattern_match (strip raw_line) of
        Some (hashes, title) \<Rightarrow>
          (case current_heading st of
             Some h \<Rightarrow>
               st\<lparr>sections := (sections st)(h \<mapsto> strip (join [10] (buffer st))),
                  buffer := [],
                  current_heading := Some (strip title)\<rparr>
           | None \<Rightarrow> st\<lparr>current_heading := Some (strip title)\<rparr>)
      | None \<Rightarrow>
          (case current_heading st of
             Some h \<Rightarrow> st\<lparr>buffer := buffer st @ [raw_line]\<rparr>
           | None \<Rightarrow> st))"

text \<open>The flush after the loop (source lines 69 to 72).\<close>

definition finish :: "scan \<Rightarrow> (ustring \<rightharpoonup> ustring)" where
  "finish st =
     (case current_heading st of
        Some h \<Rightarrow> (sections st)(h \<mapsto> strip (join [10] (buffer st)))
      | None \<Rightarrow> sections st)"

definition scan_start :: scan where
  "scan_start = \<lparr>sections = Map.empty, current_heading = None, buffer = []\<rparr>"

text \<open>\<^verbatim>\<open>parse_sections\<close>, on the text that \<^verbatim>\<open>md_path.read_text\<close> returned.\<close>

definition parse_sections :: "ustring \<Rightarrow> (ustring \<rightharpoonup> ustring)" where
  "parse_sections file_text = finish (foldl scan_line scan_start (splitlines file_text))"

section \<open>Attribute parser: \<^verbatim>\<open>parse_attributes\<close>\<close>

text \<open>One iteration: a line with a colon (code point 58) is split at the first colon.\<close>

definition attribute_line :: "(ustring \<rightharpoonup> ustring) \<Rightarrow> ustring \<Rightarrow> (ustring \<rightharpoonup> ustring)" where
  "attribute_line attributes line =
     (let cleaned = strip line
      in if cleaned = [] \<or> 58 \<notin> set cleaned then attributes
         else attributes(strip (takeWhile (\<lambda>c. c \<noteq> 58) cleaned) \<mapsto>
                           strip (tl (dropWhile (\<lambda>c. c \<noteq> 58) cleaned))))"

definition parse_attributes :: "ustring \<Rightarrow> (ustring \<rightharpoonup> ustring)" where
  "parse_attributes raw_text = foldl attribute_line Map.empty (splitlines raw_text)"

section \<open>The libraries the script calls\<close>

text \<open>
  The nodes of a parsed HTML tree, as the script looks at them: a \<^verbatim>\<open>NavigableString\<close>
  with its text, or a \<^verbatim>\<open>Tag\<close> with its name, attributes and children.
\<close>

datatype node =
  NavigableString ustring
| Tag ustring "(ustring \<times> ustring) list" "node list"

text \<open>
  The markdown renderer, the HTML parser and the number parsers are not code of the
  script; every function of the script that calls them takes them as a parameter:
  \<^item> \<open>render\<close> is \<^verbatim>\<open>MARKDOWN_RENDERER.render\<close>;
  \<^item> \<open>soup_contents html\<close> is \<^verbatim>\<open>BeautifulSoup(html, "html.parser").contents\<close>;
  \<^item> \<open>node_str\<close> is \<^verbatim>\<open>str(node)\<close>;
  \<^item> \<open>node_get_text\<close> is \<^verbatim>\<open>node.get_text(separator=" ", strip=True)\<close>;
  \<^item> \<open>soup_get_text\<close> is the same call on the whole soup, given by its contents;
  \<^item> \<open>py_float\<close> is \<^verbatim>\<open>float\<close> on a string (\<open>None\<close> when it raises \<^verbatim>\<open>ValueError\<close>),
    into a type \<open>'f\<close> of floating-point values;
  \<^item> \<open>py_int\<close> is \<^verbatim>\<open>int\<close> on a string (\<open>None\<close> when it raises \<^verbatim>\<open>ValueError\<close>).
\<close>

record 'f library =
  render :: "ustring \<Rightarrow> ustring"
  soup_contents :: "ustring \<Rightarrow> node list"
  node_str :: "node \<Rightarrow> ustring"
  node_get_text :: "node \<Rightarrow> ustring"
  soup_get_text :: "node list \<Rightarrow> ustring"
  py_float :: "ustring \<Rightarrow> 'f option"
  py_int :: "ustring \<Rightarrow> int option"

section \<open>Markdown renderer helpers\<close>

definition markdown_to_html :: "'f library \<Rightarrow> ustring \<Rightarrow> ustring" where
  "markdown_to_html L source =
     (let text = strip source in if text \<noteq> [] then strip (render L text) else [])"

text \<open>\<^verbatim>\<open>node.find_all("li", recursive=False)\<close>: the children that are \<^verbatim>\<open>li\<close> tags.\<close>

fun is_li :: "node \<Rightarrow> bool" where
  "is_li (Tag name attrs children) = (name = ustr ''li'')"
| "is_li (NavigableString s) = False"

fun find_all_li :: "node \<Rightarrow> node list" where
  "find_all_li (Tag name attrs children) = filter is_li children"
| "find_all_li (NavigableString s) = []"

text \<open>What one top-level node appends to \<^verbatim>\<open>fragments\<close> in \<^verbatim>\<open>markdown_to_html_list\<close>.\<close>

fun html_fragments :: "'f library \<Rightarrow> node \<Rightarrow> ustring list" where
  "html_fragments L (NavigableString s) = (if strip s \<noteq> [] then [strip s] else [])"
| "html_fragments L (Tag name attrs children) =
     (if name = ustr ''ul'' \<or> name = ustr ''ol''
      then map (node_str L) (find_all_li (Tag name attrs children))
      else [node_str L (Tag name attrs children)])"

definition markdown_to_html_list :: "'f library \<Rightarrow> ustring \<Rightarrow> ustring list" where
  "markdown_to_html_list L source =
     (let text = strip source
      in if text = [] then []
         else
           let html = strip (render L text);
               fragments = concat (map (html_fragments L) (soup_contents L html));
               cleaned = map strip (filter (\<lambda>fragment. strip fragment \<noteq> []) fragments)
           in if cleaned \<noteq> [] then cleaned else [html])"

text \<open>What one top-level node appends to \<^verbatim>\<open>fragments\<close> in \<^verbatim>\<open>markdown_to_text_list\<close>.\<close>

fun text_fragments :: "'f library \<Rightarrow> node \<Rightarrow> ustring list" where
  "text_fragments L (NavigableString s) = (if strip s \<noteq> [] then [strip s] else [])"
| "text_fragments L (Tag name attrs children) =
     (if name = ustr ''ul'' \<or> name = ustr ''ol''
      then filter (\<lambda>child_text. child_text \<noteq> [])
             (map (node_get_text L) (find_all_li (Tag name attrs children)))
      else (if node_get_text L (Tag name attrs children) \<noteq> []
            then [node_get_text L (Tag name attrs children)] else []))"

text \<open>
  \<open>cleaned_fragments\<close>: the result of the node-walking loop of \<^verbatim>\<open>markdown_to_text_list\<close>
  on the stripped source \<open>text\<close> (source lines 113 to 134).
\<close>

definition cleaned_fragments :: "'f library \<Rightarrow> ustring \<Rightarrow> ustring list" where
  "cleaned_fragments L text =
     filter (\<lambda>fragment. fragment \<noteq> [])
       (concat (map (text_fragments L) (soup_contents L (strip (render L text)))))"

text \<open>\<open>raw_lines\<close>: the stripped non-blank lines (source line 135).\<close>

definition raw_lines :: "ustring \<Rightarrow> ustring list" where
  "raw_lines text = map strip (filter (\<lambda>line. strip line \<noteq> []) (splitlines text))"

definition markdown_to_text_list :: "'f library \<Rightarrow> ustring \<Rightarrow> ustring list" where
  "markdown_to_text_list L source =
     (let text = strip source
      in if text = [] then []
         else if cleaned_fragments L text \<noteq> []
         then (if length (cleaned_fragments L text) = 1 \<and> length (raw_lines text) > 1
               then raw_lines text
               else cleaned_fragments L text)
         else if length (raw_lines text) > 1 then raw_lines text
         else
           let fallback = soup_get_text L (soup_contents L (strip (render L text)))
           in if fallback \<noteq> [] then [fallback] else [])"

section \<open>Payload builder: \<^verbatim>\<open>build_payload\<close>\<close>

definition h_question :: ustring where "h_question = [39064, 30446]"
definition h_answer :: ustring where "h_answer = [31572, 26696]"
definition h_analysis :: ustring where "h_analysis = [20998, 26512]"
definition h_explanation :: ustring where "h_explanation = [35814, 35299]"
definition h_knowledge :: ustring where "h_knowledge = [30693, 35782, 28857]"
definition h_attributes :: ustring where "h_attributes = [23646, 24615]"

text \<open>The set \<^verbatim>\<open>required_headings\<close>, in the order the source writes it.\<close>

definition required_headings :: "ustring list" where
  "required_headings =
     [h_question, h_answer, h_analysis, h_explanation, h_knowledge, h_attributes]"

text \<open>
  The exceptions that leave the script. \<open>ValueError\<close> carries the message of a
  \<^verbatim>\<open>ValueError\<close> that \<^verbatim>\<open>build_payload\<close> raises itself; \<open>IntValueError\<close> is the
  \<^verbatim>\<open>ValueError\<close> that \<^verbatim>\<open>int(md_path.stem)\<close> raises, with the stem. \<open>UsageError\<close> is
  the exit of \<^verbatim>\<open>parser.error\<close> and \<open>StorageError\<close> whatever the database driver
  raises.
\<close>

datatype error =
  ValueError ustring
| IntValueError ustring
| UsageError
| StorageError

record 'f payload =
  question_id :: int
  question_type :: ustring
  accuracy :: 'f
  question :: ustring
  answer :: "ustring list"
  analysis :: "ustring list"
  explanation :: "ustring list"
  knowledge :: "ustring list"

text \<open>\<open>required_headings - sections.keys()\<close>.\<close>

definition missing_headings :: "(ustring \<rightharpoonup> ustring) \<Rightarrow> ustring list" where
  "missing_headings secs = filter (\<lambda>h. secs h = None) required_headings"

text \<open>The message of source lines 168 and 169; \<open>sort\<close> is by code points, as \<^verbatim>\<open>sorted\<close>.\<close>

definition missing_sections_message :: "ustring list \<Rightarrow> ustring" where
  "missing_sections_message missing =
     ustr ''Markdown file is missing sections: '' @ join (ustr '', '') (sort missing)"

text \<open>
  The message of source line 176: the text of a \<^verbatim>\<open>KeyError\<close> is the \<^verbatim>\<open>repr\<close> of the
  key, which for the two keys looked up is the key between single quotes (code point 39).
\<close>

definition missing_attribute_message :: "ustring \<Rightarrow> ustring" where
  "missing_attribute_message key = ustr ''Missing attribute: '' @ [39] @ key @ [39]"

text \<open>
  \<^verbatim>\<open>build_payload\<close>, on the stem of the path and the text of the file. The lookups
  \<open>sections[...]\<close> come after the check of the headings, so none of them can raise.
\<close>

definition build_payload :: "'f library \<Rightarrow> ustring \<Rightarrow> ustring \<Rightarrow> error + 'f payload" where
  "build_payload L stem file_text =
     (let secs = parse_sections file_text;
          missing = missing_headings secs
      in if missing \<noteq> [] then Inl (ValueError (missing_sections_message missing))
         else
           let attributes = parse_attributes (the (secs h_attributes))
           in case attributes (ustr ''question_type'') of
                None \<Rightarrow> Inl (ValueError (missing_attribute_message (ustr ''question_type'')))
              | Some qtype \<Rightarrow>
                 (case attributes (ustr ''accuracy'') of
                    None \<Rightarrow> Inl (ValueError (missing_attribute_message (ustr ''accuracy'')))
                  | Some acc_text \<Rightarrow>
                     (case py_float L acc_text of
                        None \<Rightarrow> Inl (ValueError (ustr ''Accuracy must be a float.''))
                      | Some acc \<Rightarrow>
                         (let question_html = markdown_to_html L (the (secs h_question));
                              answer_text_list = markdown_to_text_list L (the (secs h_answer));
                              analysis_html_list = markdown_to_html_list L (the (secs h_analysis));
                              explanation_html_list =
                                markdown_to_html_list L (the (secs h_explanation));
                              knowledge_text_list =
                                markdown_to_text_list L (the (secs h_knowledge))
                          in if question_html = []
                             then Inl (ValueError (ustr ''Question section cannot be empty.''))
                             else if answer_text_list = []
                             then Inl (ValueError (ustr ''Answer section cannot be empty.''))
                             else
                               (case py_int L stem of
                                  None \<Rightarrow> Inl (IntValueError stem)
                                | Some qid \<Rightarrow>
                                    Inr \<lparr>question_id = qid,
                                         question_type = qtype,
                                         accuracy = acc,
                                         question = question_html,
                                         answer = answer_text_list,
                                         analysis = analysis_html_list,
                                         explanation = explanation_html_list,
                                         knowledge = knowledge_text_list\<rparr>)))))"

section \<open>Store writer and \<^verbatim>\<open>main\<close>\<close>

text \<open>
  What the script can change outside itself: the table \<^verbatim>\<open>content.questions\<close>, keyed by
  \<open>question_id\<close>, each row with its \<open>updated_at\<close> (\<open>None\<close> is the column's default of a
  fresh row, \<open>Some t\<close> the \<^verbatim>\<open>NOW()\<close> of an update), and the standard output. \<open>clock\<close>
  is the database's \<^verbatim>\<open>NOW()\<close>, \<open>reachable\<close> says for which connection strings
  \<^verbatim>\<open>psycopg2.connect\<close> succeeds, and \<open>insert_calls\<close> counts the calls of
  \<^verbatim>\<open>insert_question\<close>.
\<close>

record 'f world =
  table :: "int \<rightharpoonup> 'f payload \<times> nat option"
  clock :: nat
  reachable :: "ustring \<Rightarrow> bool"
  insert_calls :: nat
  printed :: "int list"

definition insert_question ::
  "ustring \<Rightarrow> 'f payload \<Rightarrow> 'f world \<Rightarrow> (error + unit) \<times> 'f world" where
  "insert_question dsn p w =
     (let w1 = w\<lparr>insert_calls := insert_calls w + 1\<rparr>
      in if \<not> reachable w dsn then (Inl StorageError, w1)
         else (Inr (),
               w1\<lparr>table := (table w)(question_id p \<mapsto>
                  (p, case table w (question_id p) of
                        None \<Rightarrow> None
                      | Some old \<Rightarrow> Some (clock w)))\<rparr>))"

text \<open>
  \<^verbatim>\<open>main\<close> after the arguments are parsed: \<open>dsn\<close> is \<^verbatim>\<open>args.dsn\<close>, the stem and the
  text are those of \<^verbatim>\<open>args.md_path\<close>. An exception of \<^verbatim>\<open>build_payload\<close> ends the run
  at source line 256.
\<close>

definition main ::
  "'f library \<Rightarrow> ustring option \<Rightarrow> ustring \<Rightarrow> ustring \<Rightarrow> 'f world \<Rightarrow> (error + unit) \<times> 'f world" where
  "main L dsn stem file_text w =
     (case dsn of
        None \<Rightarrow> (Inl UsageError, w)
      | Some d \<Rightarrow>
         (case build_payload L stem file_text of
            Inl e \<Rightarrow> (Inl e, w)
          | Inr p \<Rightarrow>
             (case insert_question d p w of
                (Inl e, w') \<Rightarrow> (Inl e, w')
              | (Inr u, w') \<Rightarrow> (Inr (), w'\<lparr>printed := printed w' @ [question_id p]\<rparr>))))"

section \<open>Notions used in the statements\<close>

text \<open>
  The title under which the loop of \<^verbatim>\<open>parse_sections\<close> files a line that matches the
  heading pattern: \<^verbatim>\<open>match.group(2).strip()\<close>; \<open>None\<close> for a line that does not match.
\<close>

definition heading_title :: "ustring \<Rightarrow> ustring option" where
  "heading_title raw_line =
     (case heading_pattern_match (strip raw_line) of
        Some (hashes, title) \<Rightarrow> Some (strip title)
      | None \<Rightarrow> None)"

text \<open>
  Two notions for the proofs about \<open>splitlines\<close>: \<open>first_line_cons p ls\<close> puts \<open>p\<close> in
  front of the first line of \<open>ls\<close>, and \<open>nonblank_stripped\<close> is the list comprehension of
  \<open>raw_lines\<close> on a list of lines.
\<close>

definition first_line_cons :: "ustring \<Rightarrow> ustring list \<Rightarrow> ustring list" where
  "first_line_cons p ls = (case ls of [] \<Rightarrow> [p] | l # ls' \<Rightarrow> (p @ l) # ls')"

definition nonblank_stripped :: "ustring list \<Rightarrow> ustring list" where
  "nonblank_stripped ls = map strip (filter (\<lambda>line. strip line \<noteq> []) ls)"

section \<open>A sample of the libraries\<close>

text \<open>
  The examples below need the libraries' answers on a few inputs. The sample renderer
  gives what markdown-it gives on text without markup, one paragraph
  \<^verbatim>\<open><p>text</p>\<close> followed by a line feed, and on the lone link reference definition
  \<^verbatim>\<open>[foo]: /url\<close>, which renders to the empty string. The sample parser gives what
  the HTML parser gives on such a paragraph: one \<^verbatim>\<open>p\<close> tag holding one string; the
  empty document has no node.
\<close>

definition sample_render :: "ustring \<Rightarrow> ustring" where
  "sample_render text =
     (if text = ustr ''[foo]: /url'' then []
      else ustr ''<p>'' @ text @ ustr ''</p>'' @ [10])"

definition sample_soup_contents :: "ustring \<Rightarrow> node list" where
  "sample_soup_contents html =
     (if html = [] then []
      else if take 3 html = ustr ''<p>'' \<and> drop (length html - 4) html = ustr ''</p>''
      then [Tag (ustr ''p'') [] [NavigableString (take (length html - 7) (drop 3 html))]]
      else [NavigableString html])"

fun sample_node_str :: "node \<Rightarrow> ustring" where
  "sample_node_str (NavigableString s) = s"
| "sample_node_str (Tag name attrs children) =
     [60] @ name @ [62] @ concat (map sample_node_str children) @ [60, 47] @ name @ [62]"

fun all_strings :: "node \<Rightarrow> ustring list" where
  "all_strings (NavigableString s) = [s]"
| "all_strings (Tag name attrs children) = concat (map all_strings children)"

definition sample_get_text :: "node list \<Rightarrow> ustring" where
  "sample_get_text nodes =
     join [32] (filter (\<lambda>s. s \<noteq> []) (map strip (concat (map all_strings nodes))))"

definition is_digit :: "nat \<Rightarrow> bool" where
  "is_digit c \<longleftrightarrow> 48 \<le> c \<and> c \<le> 57"

definition digits_value :: "ustring \<Rightarrow> nat" where
  "digits_value ds = foldl (\<lambda>a c. 10 * a + (c - 48)) 0 ds"

text \<open>Unsigned decimal literals only: \<^verbatim>\<open>42\<close> for \<open>int\<close>, \<^verbatim>\<open>0.95\<close> or \<^verbatim>\<open>1\<close> for \<open>float\<close>.\<close>

definition sample_int :: "ustring \<Rightarrow> int option" where
  "sample_int s = (if s \<noteq> [] \<and> list_all is_digit s then Some (int (digits_value s)) else None)"

definition sample_float :: "ustring \<Rightarrow> real option" where
  "sample_float s =
     (let whole = takeWhile (\<lambda>c. c \<noteq> 46) s;
          frac = drop 1 (dropWhile (\<lambda>c. c \<noteq> 46) s)
      in if whole \<noteq> [] \<and> list_all is_digit whole \<and> list_all is_digit frac
         then Some (real (digits_value whole) + real (digits_value frac) / 10 ^ length frac)
         else None)"

definition sample_library :: "real library" where
  "sample_library =
     \<lparr>render = sample_render,
      soup_contents = sample_soup_contents,
      node_str = sample_node_str,
      node_get_text = (\<lambda>n. sample_get_text [n]),
      soup_get_text = sample_get_text,
      py_float = sample_float,
      py_int = sample_int\<rparr>"

text \<open>
  Sample documents. \<open>doc_with_attributes body\<close> is a file with the six sections, Question
  \<^verbatim>\<open>What is 2+2?\<close>, Answer \<^verbatim>\<open>4\<close>, the next three empty, and \<open>body\<close> as its
  Attributes section. \<open>doc_example\<close> is the file of the end-to-end example; in the others
  the Attributes section is empty, lacks \<^verbatim>\<open>accuracy\<close>, or has an \<^verbatim>\<open>accuracy\<close> that
  is not a number.
\<close>

definition heading_line :: "ustring \<Rightarrow> ustring" where
  "heading_line h = ustr ''# '' @ h @ [10]"

definition doc_with_attributes :: "ustring \<Rightarrow> ustring" where
  "doc_with_attributes body =
     heading_line h_question @ ustr ''What is 2+2?'' @ [10, 10] @
     heading_line h_answer @ ustr ''4'' @ [10, 10] @
     heading_line h_analysis @ [10] @
     heading_line h_explanation @ [10] @
     heading_line h_knowledge @ [10] @
     heading_line h_attributes @ body"

definition doc_example :: ustring where
  "doc_example =
     doc_with_attributes
       (ustr ''question_type: numeric'' @ [10] @ ustr ''accuracy: 0.95'' @ [10])"

definition doc_no_attributes :: ustring where
  "doc_no_attributes = doc_with_attributes []"




text \<open>
  \<open>doc_duplicate\<close> has the heading \<^verbatim>\<open>A\<close> twice, the second time at another level.
\<close>

definition doc_duplicate :: ustring where
  "doc_duplicate =
     ustr ''# A'' @ [10] @ ustr ''first'' @ [10] @
     ustr ''# B'' @ [10] @ ustr ''second'' @ [10] @
     ustr ''## A'' @ [10] @ ustr ''third'' @ [10, 10] @ ustr ''lines'' @ [10]"

text \<open>A world with an empty table, in which every connection succeeds.\<close>

definition sample_world :: "real world" where
  "sample_world =
     \<lparr>table = Map.empty, clock = 0, reachable = (\<lambda>dsn. True), insert_calls = 0, printed = []\<rparr>"

section \<open>The constants of the evaluations\<close>

lemmas str_defs = ustr_def h_question_def h_answer_def h_analysis_def h_explanation_def
  h_knowledge_def h_attributes_def heading_line_def doc_with_attributes_def

lemmas scan_defs = scan_start_def scan_line_def strip_def isspace_def heading_pattern_match_def
  finish_def

section \<open>Facts about \<open>strip\<close>\<close>

lemma dropWhile_all_iff: "(\<forall>x\<in>set (dropWhile P xs). P x) \<longleftrightarrow> (\<forall>x\<in>set xs. P x)"
  by (induction xs) auto

lemma dropWhile_all_append: "\<forall>x\<in>set ws. P x \<Longrightarrow> dropWhile P (ws @ t) = dropWhile P t"
  by (induction ws) auto

lemma strip_space_prefix: "\<forall>c\<in>set ws. isspace c \<Longrightarrow> strip (ws @ s) = strip s"
  by (simp add: strip_def dropWhile_append2)

lemma strip_Nil_iff: "strip s = [] \<longleftrightarrow> (\<forall>c\<in>set s. isspace c)"
  by (simp add: strip_def dropWhile_eq_Nil_conv dropWhile_all_iff)

lemma strip_space_suffix:
  assumes ws: "\<forall>c\<in>set ws. isspace c"
  shows "strip (s @ ws) = strip s"
proof (cases "\<forall>c\<in>set s. isspace c")
  case True
  with ws have "\<forall>c\<in>set (s @ ws). isspace c" by auto
  with True show ?thesis by (simp only: strip_Nil_iff [THEN iffD2])
next
  case False
  then obtain x where "x \<in> set s" "\<not> isspace x" by blast
  then have "dropWhile isspace (s @ ws) = dropWhile isspace s @ ws"
    by (rule dropWhile_append1)
  moreover from ws have "dropWhile isspace (rev ws @ t) = dropWhile isspace t" for t
    by (intro dropWhile_all_append) simp
  ultimately show ?thesis by (simp add: strip_def)
qed

lemma strip_fixed:
  assumes "s \<noteq> []" "\<not> isspace (hd s)" "\<not> isspace (last s)"
  shows "strip s = s"
proof -
  from assms(1,2) have a: "dropWhile isspace s = s" by (cases s) auto
  from assms(1,3) have "dropWhile isspace (rev s) = rev s"
    by (cases "rev s") (auto simp: last_rev [symmetric] hd_rev)
  with a show ?thesis by (simp add: strip_def)
qed

lemma strip_decompose:
  "\<exists>a b. s = a @ strip s @ b \<and> (\<forall>c\<in>set a. isspace c) \<and> (\<forall>c\<in>set b. isspace c)"
proof -
  let ?d = "dropWhile isspace s"
  have 1: "s = takeWhile isspace s @ ?d" by simp
  have 2: "rev ?d = takeWhile isspace (rev ?d) @ dropWhile isspace (rev ?d)" by simp
  have "?d = rev (rev ?d)" by simp
  also have "\<dots> = rev (takeWhile isspace (rev ?d) @ dropWhile isspace (rev ?d))"
    by (simp only: takeWhile_dropWhile_id)
  also have "\<dots> = strip s @ rev (takeWhile isspace (rev ?d))"
    by (simp only: rev_append strip_def)
  finally have 3: "?d = strip s @ rev (takeWhile isspace (rev ?d))" .
  have 4: "\<forall>c\<in>set (takeWhile isspace s). isspace c"
    by (auto dest: set_takeWhileD)
  have 5: "\<forall>c\<in>set (rev (takeWhile isspace (rev ?d))). isspace c"
    by (auto dest: set_takeWhileD)
  from 1 3 have "s = takeWhile isspace s @ strip s @ rev (takeWhile isspace (rev ?d))"
    by metis
  with 4 5 show ?thesis by blast
qed

lemma strip_ends:
  assumes "strip s \<noteq> []"
  shows "\<not> isspace (hd (strip s))" and "\<not> isspace (last (strip s))"
proof -
  let ?d = "dropWhile isspace s"
  let ?e = "dropWhile isspace (rev ?d)"
  from assms have e: "?e \<noteq> []" by (simp add: strip_def)
  then have "\<not> isspace (hd ?e)" by (rule hd_dropWhile)
  with e show "\<not> isspace (last (strip s))" by (simp add: strip_def last_rev)
  have d: "?d \<noteq> []"
  proof
    assume a: "?d = []"
    have "?e = []" unfolding a by simp
    with e show False ..
  qed
  then have nd: "\<not> isspace (hd ?d)" by (rule hd_dropWhile)
  have "rev ?d = takeWhile isspace (rev ?d) @ ?e" by simp
  then have "?d = rev ?e @ rev (takeWhile isspace (rev ?d))"
    by (metis rev_append rev_rev_ident)
  with e have "hd ?d = hd (rev ?e)" by (metis hd_append2 rev_is_Nil_conv)
  with nd show "\<not> isspace (hd (strip s))" by (simp add: strip_def)
qed

lemma strip_idem: "strip (strip s) = strip s"
proof (cases "strip s = []")
  case True
  have "strip [] = []" by (simp add: strip_def)
  with True show ?thesis by simp
next
  case False
  then show ?thesis using strip_ends [OF False] by (intro strip_fixed) auto
qed

lemma strip_Nil: "strip [] = []"
  by (simp add: strip_def)

section \<open>Facts about \<open>splitlines\<close>\<close>

lemma linebreak_is_space: "is_linebreak c \<Longrightarrow> isspace c"
  by (auto simp: is_linebreak_def isspace_def)

lemma splitlines_crlf: "splitlines (13 # 10 # r) = [] # splitlines r"
  by simp

lemma splitlines_break:
  "is_linebreak c \<Longrightarrow> \<not> (c = 13 \<and> cs \<noteq> [] \<and> hd cs = 10) \<Longrightarrow>
   splitlines (c # cs) = [] # splitlines cs"
  by auto

lemma splitlines_plain:
  "\<not> is_linebreak c \<Longrightarrow> splitlines (c # cs) = first_line_cons [c] (splitlines cs)"
  by (auto simp: first_line_cons_def is_linebreak_def split: list.split)

lemma first_line_cons_twice:
  "first_line_cons p (first_line_cons q ls) = first_line_cons (p @ q) ls"
  by (simp add: first_line_cons_def split: list.split)

lemma concat_first_line_cons: "concat (first_line_cons p ls) = p @ concat ls"
  by (simp add: first_line_cons_def split: list.split)

lemma in_first_line_cons:
  "l \<in> set (first_line_cons p ls) \<Longrightarrow>
     (l = p \<and> ls = []) \<or> (\<exists>l0\<in>set ls. l = p @ l0) \<or> l \<in> set ls"
  by (auto simp: first_line_cons_def split: list.splits)

lemma splitlines_chars: "set (concat (splitlines s)) \<subseteq> set s"
proof (induction s rule: splitlines.induct)
  case 1
  show ?case by simp
next
  case (2 c cs)
  show ?case
  proof (cases "c = 13 \<and> cs \<noteq> [] \<and> hd cs = 10")
    case True
    with 2(1) have "set (concat (splitlines (tl cs))) \<subseteq> set (tl cs)" by simp
    moreover from True have "set (tl cs) \<subseteq> set cs" by (cases cs) auto
    ultimately show ?thesis using True by auto
  next
    case False
    show ?thesis
    proof (cases "is_linebreak c")
      case True
      with False 2(2) show ?thesis by auto
    next
      case nb: False
      with False 2(3) have "set (concat (splitlines cs)) \<subseteq> set cs" by simp
      then show ?thesis using nb
        by (auto simp: splitlines_plain concat_first_line_cons simp del: splitlines.simps(2))
    qed
  qed
qed

lemma splitlines_no_linebreak:
  "l \<in> set (splitlines s) \<Longrightarrow> c \<in> set l \<Longrightarrow> \<not> is_linebreak c"
proof (induction s arbitrary: l rule: splitlines.induct)
  case 1
  then show ?case by simp
next
  case (2 d ds)
  show ?case
  proof (cases "d = 13 \<and> ds \<noteq> [] \<and> hd ds = 10")
    case True
    with 2(1,4,5) show ?thesis by auto
  next
    case False
    show ?thesis
    proof (cases "is_linebreak d")
      case True
      with False 2(2,4,5) show ?thesis by auto
    next
      case nb: False
      with False 2(3) have ih: "\<And>l. l \<in> set (splitlines ds) \<Longrightarrow> c \<in> set l \<Longrightarrow> \<not> is_linebreak c"
        by simp
      from 2(4) nb have "l \<in> set (first_line_cons [d] (splitlines ds))"
        by (simp add: splitlines_plain del: splitlines.simps(2))
      then have "l = [d] \<or> (\<exists>l0\<in>set (splitlines ds). l = [d] @ l0) \<or> l \<in> set (splitlines ds)"
        by (blast dest: in_first_line_cons)
      with 2(5) nb ih show ?thesis by auto
    qed
  qed
qed

lemma splitlines_keeps_chars: "c \<in> set s \<Longrightarrow> \<not> is_linebreak c \<Longrightarrow> c \<in> set (concat (splitlines s))"
proof (induction s rule: splitlines.induct)
  case 1
  then show ?case by simp
next
  case (2 d ds)
  show ?case
  proof (cases "d = 13 \<and> ds \<noteq> [] \<and> hd ds = 10")
    case True
    then obtain r where ds: "ds = 10 # r" by (cases ds) auto
    have "is_linebreak 10" "is_linebreak 13" by (simp_all add: is_linebreak_def)
    with 2(4,5) True ds have "c \<in> set r" by auto
    with 2(1) [OF True] 2(5) ds True show ?thesis by simp
  next
    case False
    show ?thesis
    proof (cases "is_linebreak d")
      case True
      with 2(4,5) have "c \<in> set ds" by auto
      moreover from False True have "splitlines (d # ds) = [] # splitlines ds"
        by (intro splitlines_break)
      ultimately show ?thesis using 2(2) [OF False True] 2(5)
        by (simp del: splitlines.simps(2))
    next
      case nb: False
      have "concat (splitlines (d # ds)) = d # concat (splitlines ds)"
        using nb by (simp add: splitlines_plain concat_first_line_cons del: splitlines.simps(2))
      with 2(3) [OF False nb] 2(4,5) show ?thesis by auto
    qed
  qed
qed

lemma blank_lines:
  assumes "\<forall>c\<in>set b. isspace c"
  shows "\<forall>l\<in>set (splitlines b). strip l = []"
proof
  fix l assume l: "l \<in> set (splitlines b)"
  then have "set l \<subseteq> set (concat (splitlines b))" by auto
  with splitlines_chars [of b] assms have "\<forall>c\<in>set l. isspace c" by blast
  then show "strip l = []" by (simp add: strip_Nil_iff)
qed

section \<open>The raw lines of a stripped source\<close>

text \<open>
  \<^verbatim>\<open>markdown_to_text_list\<close> takes the raw lines of the stripped source. They are the
  raw lines of the source itself: stripping only removes blank lines at both ends and
  whitespace that the stripping of each line removes as well.
\<close>

lemma raw_lines_blank: "\<forall>c\<in>set b. isspace c \<Longrightarrow> raw_lines b = []"
  using blank_lines [of b] by (simp add: raw_lines_def filter_empty_conv)

lemma raw_lines_alt: "raw_lines text = nonblank_stripped (splitlines text)"
  by (simp add: raw_lines_def nonblank_stripped_def)

lemma nonblank_stripped_Cons:
  "nonblank_stripped (l # ls) = (if strip l \<noteq> [] then [strip l] else []) @ nonblank_stripped ls"
  by (simp add: nonblank_stripped_def)

lemma nonblank_stripped_Nil: "nonblank_stripped [] = []"
  by (simp add: nonblank_stripped_def)

lemma nonblank_stripped_blank: "\<forall>l\<in>set ls. strip l = [] \<Longrightarrow> nonblank_stripped ls = []"
  by (simp add: nonblank_stripped_def filter_empty_conv)

lemma nonblank_stripped_first_space:
  assumes "\<forall>c\<in>set p. isspace c"
  shows "nonblank_stripped (first_line_cons p ls) = nonblank_stripped ls"
proof (cases ls)
  case Nil
  with assms show ?thesis
    by (simp add: first_line_cons_def nonblank_stripped_def strip_Nil_iff)
next
  case (Cons l ls')
  with assms show ?thesis
    by (simp add: first_line_cons_def nonblank_stripped_def strip_space_prefix)
qed

lemma nonblank_stripped_first_Nil:
  "nonblank_stripped (first_line_cons [] ls) = nonblank_stripped ls"
  by (rule nonblank_stripped_first_space) simp

lemma first_line_cons_Nil_line: "first_line_cons p ([] # ls) = p # ls"
  by (simp add: first_line_cons_def)

lemma raw_lines_space_Cons:
  assumes "isspace c"
  shows "raw_lines (c # s) = raw_lines s"
proof (cases "c = 13 \<and> s \<noteq> [] \<and> hd s = 10")
  case True
  then obtain r where s: "s = 10 # r" by (cases s) auto
  have "is_linebreak 10" by (simp add: is_linebreak_def)
  then have "splitlines (10 # r) = [] # splitlines r" by (intro splitlines_break) auto
  with True s show ?thesis by (simp add: raw_lines_alt splitlines_crlf del: splitlines.simps(2))
next
  case False
  show ?thesis
  proof (cases "is_linebreak c")
    case True
    with False have "splitlines (c # s) = [] # splitlines s" by (intro splitlines_break)
    then show ?thesis by (simp add: raw_lines_alt nonblank_stripped_def strip_Nil)
  next
    case nb: False
    with assms show ?thesis
      by (simp add: raw_lines_alt splitlines_plain nonblank_stripped_first_space
          del: splitlines.simps(2))
  qed
qed

lemma raw_lines_space_prefix: "\<forall>c\<in>set a. isspace c \<Longrightarrow> raw_lines (a @ s) = raw_lines s"
  by (induction a) (simp_all add: raw_lines_space_Cons del: splitlines.simps(2))

lemma nonblank_stripped_space_tail:
  assumes b: "\<forall>c\<in>set b. isspace c"
  shows "nonblank_stripped (first_line_cons p (splitlines b)) = nonblank_stripped [p]"
proof (cases "splitlines b")
  case Nil
  then show ?thesis by (simp add: first_line_cons_def)
next
  case (Cons l ls)
  from blank_lines [OF b] Cons have l: "strip l = []" and ls: "\<forall>l\<in>set ls. strip l = []"
    by auto
  from l have "\<forall>c\<in>set l. isspace c" by (simp add: strip_Nil_iff)
  then have "strip (p @ l) = strip p" by (rule strip_space_suffix)
  then show ?thesis using Cons ls
    by (simp add: first_line_cons_def nonblank_stripped_Cons nonblank_stripped_blank)
qed

lemma splitlines_space_suffix:
  assumes b: "\<forall>c\<in>set b. isspace c"
  shows "nonblank_stripped (first_line_cons p (splitlines (s @ b)))
       = nonblank_stripped (first_line_cons p (splitlines s))"
proof (induction s arbitrary: p rule: splitlines.induct)
  case 1
  show ?case using nonblank_stripped_space_tail [OF b, of p]
    by (simp add: first_line_cons_def)
next
  case (2 c cs)
  show ?case
  proof (cases "c = 13 \<and> cs \<noteq> [] \<and> hd cs = 10")
    case True
    then obtain r where cs: "cs = 10 # r" by (cases cs) auto
    from 2(1) [OF True, of "[]"] cs
    have "nonblank_stripped (splitlines (r @ b)) = nonblank_stripped (splitlines r)"
      by (simp add: nonblank_stripped_first_Nil del: splitlines.simps(2))
    with True cs show ?thesis
      by (simp add: splitlines_crlf first_line_cons_Nil_line
          nonblank_stripped_Cons del: splitlines.simps(2))
  next
    case False
    show ?thesis
    proof (cases "is_linebreak c")
      case True
      with False have r: "splitlines (c # cs) = [] # splitlines cs"
        by (intro splitlines_break)
      show ?thesis
      proof (cases "c = 13 \<and> cs @ b \<noteq> [] \<and> hd (cs @ b) = 10")
        case crlf: True
        with False have cs: "cs = []" by (cases cs) auto
        with crlf obtain b' where b': "b = 10 # b'" by (cases b) auto
        with b have "\<forall>c\<in>set b'. isspace c" by simp
        then have "nonblank_stripped (splitlines b') = []"
          using raw_lines_blank [of b'] by (simp add: raw_lines_alt)
        with crlf cs b' r show ?thesis
          by (simp add: splitlines_crlf first_line_cons_Nil_line
              nonblank_stripped_Cons nonblank_stripped_Nil first_line_cons_def
              del: splitlines.simps(2))
      next
        case nocrlf: False
        with True have l: "splitlines (c # (cs @ b)) = [] # splitlines (cs @ b)"
          by (intro splitlines_break)
        from 2(2) [OF False True, of "[]"]
        have "nonblank_stripped (splitlines (cs @ b)) = nonblank_stripped (splitlines cs)"
          by (simp add: nonblank_stripped_first_Nil)
        with l r show ?thesis
          by (simp add: first_line_cons_Nil_line nonblank_stripped_Cons
              del: splitlines.simps(2))
      qed
    next
      case nb: False
      from 2(3) [OF False nb, of "p @ [c]"] nb show ?thesis
        by (simp add: splitlines_plain first_line_cons_twice del: splitlines.simps(2))
    qed
  qed
qed

lemma raw_lines_space_suffix:
  assumes "\<forall>c\<in>set b. isspace c"
  shows "raw_lines (s @ b) = raw_lines s"
  using splitlines_space_suffix [OF assms, of "[]" s]
  by (simp add: raw_lines_alt nonblank_stripped_first_Nil)

lemma raw_lines_strip: "raw_lines (strip s) = raw_lines s"
proof -
  obtain a b where "s = a @ strip s @ b" "\<forall>c\<in>set a. isspace c" "\<forall>c\<in>set b. isspace c"
    using strip_decompose by blast
  then have "raw_lines s = raw_lines (a @ strip s @ b)" by simp
  also have "\<dots> = raw_lines (strip s @ b)"
    using \<open>\<forall>c\<in>set a. isspace c\<close> by (rule raw_lines_space_prefix)
  also have "\<dots> = raw_lines (strip s)"
    using \<open>\<forall>c\<in>set b. isspace c\<close> by (rule raw_lines_space_suffix)
  finally show ?thesis by simp
qed

lemma raw_lines_nonempty:
  assumes "strip s \<noteq> []"
  shows "raw_lines s \<noteq> []"
proof -
  from assms obtain c where c: "c \<in> set s" "\<not> isspace c" by (auto simp: strip_Nil_iff)
  then have "\<not> is_linebreak c" using linebreak_is_space by blast
  with c(1) have "c \<in> set (concat (splitlines s))" by (rule splitlines_keeps_chars)
  then obtain l where l: "l \<in> set (splitlines s)" "c \<in> set l" by auto
  with c(2) have "strip l \<noteq> []" by (auto simp: strip_Nil_iff)
  with l(1) show ?thesis by (auto simp: raw_lines_def filter_empty_conv)
qed

lemma raw_lines_Nil: "raw_lines [] = []"
  by (simp add: raw_lines_def)

section \<open>The loop of \<open>parse_sections\<close>\<close>





lemma scan_line_heading:
  assumes "heading_title l = Some t"
  shows "scan_line st l =
    (case current_heading st of
       Some h \<Rightarrow> st\<lparr>sections := (sections st)(h \<mapsto> strip (join [10] (buffer st))),
                   buffer := [], current_heading := Some t\<rparr>
     | None \<Rightarrow> st\<lparr>current_heading := Some t\<rparr>)"
  using assms by (auto simp: scan_line_def heading_title_def split: option.splits)

lemma scan_line_body:
  assumes "heading_title l = None"
  shows "scan_line st l =
    (case current_heading st of Some h \<Rightarrow> st\<lparr>buffer := buffer st @ [l]\<rparr> | None \<Rightarrow> st)"
  using assms by (auto simp: scan_line_def heading_title_def split: option.splits)

lemma scan_line_buffer_inv:
  assumes "current_heading st = None \<longrightarrow> buffer st = []"
  shows "current_heading (scan_line st l) = None \<longrightarrow> buffer (scan_line st l) = []"
proof (cases "heading_title l")
  case None
  with assms show ?thesis by (simp add: scan_line_body split: option.split)
next
  case (Some t)
  then show ?thesis by (simp add: scan_line_heading split: option.split)
qed

lemma foldl_scan_buffer_inv:
  "current_heading st = None \<longrightarrow> buffer st = [] \<Longrightarrow>
   current_heading (foldl scan_line st ls) = None \<longrightarrow> buffer (foldl scan_line st ls) = []"
proof (induction ls arbitrary: st)
  case Nil
  then show ?case by simp
next
  case (Cons l ls)
  from Cons.prems have "current_heading (scan_line st l) = None \<longrightarrow> buffer (scan_line st l) = []"
    by (rule scan_line_buffer_inv)
  then show ?case using Cons.IH by simp
qed

lemma foldl_scan_body:
  "current_heading st = Some t \<Longrightarrow> \<forall>l\<in>set body. heading_title l = None \<Longrightarrow>
   foldl scan_line st body = st\<lparr>buffer := buffer st @ body\<rparr>"
proof (induction body arbitrary: st)
  case Nil
  then show ?case by simp
next
  case (Cons l body)
  then have "scan_line st l = st\<lparr>buffer := buffer st @ [l]\<rparr>"
    by (simp add: scan_line_body)
  moreover from Cons.prems(1) have "current_heading (st\<lparr>buffer := buffer st @ [l]\<rparr>) = Some t"
    by simp
  ultimately show ?case using Cons.IH [of "st\<lparr>buffer := buffer st @ [l]\<rparr>"] Cons.prems(2)
    by simp
qed

lemma finish_other_heading:
  "current_heading st \<noteq> Some t \<Longrightarrow> \<forall>l\<in>set ls. heading_title l \<noteq> Some t \<Longrightarrow>
   finish (foldl scan_line st ls) t = sections st t"
proof (induction ls arbitrary: st)
  case Nil
  then show ?case by (auto simp: finish_def split: option.split)
next
  case (Cons l ls)
  have "current_heading (scan_line st l) \<noteq> Some t \<and> sections (scan_line st l) t = sections st t"
  proof (cases "heading_title l")
    case None
    with Cons.prems(1) show ?thesis by (auto simp: scan_line_body split: option.split)
  next
    case (Some t')
    with Cons.prems(2) have "t' \<noteq> t" by auto
    with Some Cons.prems(1) show ?thesis by (auto simp: scan_line_heading split: option.split)
  qed
  with Cons.IH [of "scan_line st l"] Cons.prems(2) show ?case by simp
qed

lemma finish_current_heading:
  assumes "current_heading st = Some t"
    and "rest = [] \<or> heading_title (hd rest) \<noteq> None"
    and "\<forall>l\<in>set rest. heading_title l \<noteq> Some t"
  shows "finish (foldl scan_line st rest) t = Some (strip (join [10] (buffer st)))"
proof (cases rest)
  case Nil
  with assms(1) show ?thesis by (simp add: finish_def)
next
  case (Cons r rs)
  with assms(2) obtain t' where t': "heading_title r = Some t'" by auto
  with assms(3) Cons have ne: "t' \<noteq> t" by auto
  let ?st = "scan_line st r"
  from t' assms(1) have st: "current_heading ?st = Some t'"
    "sections ?st t = Some (strip (join [10] (buffer st)))"
    by (simp_all add: scan_line_heading)
  from st(1) ne have "current_heading ?st \<noteq> Some t" by simp
  moreover from assms(3) Cons have "\<forall>l\<in>set rs. heading_title l \<noteq> Some t" by simp
  ultimately have "finish (foldl scan_line ?st rs) t = sections ?st t"
    by (rule finish_other_heading)
  with st(2) Cons show ?thesis by simp
qed

lemma parse_sections_last_heading:
  assumes lines: "splitlines file_text = before @ [hline] @ body @ rest"
    and h: "heading_title hline = Some t"
    and body: "\<forall>l\<in>set body. heading_title l = None"
    and rest: "rest = [] \<or> heading_title (hd rest) \<noteq> None"
    and last: "\<forall>l\<in>set rest. heading_title l \<noteq> Some t"
  shows "parse_sections file_text t = Some (strip (join [10] body))"
proof -
  let ?st0 = "foldl scan_line scan_start before"
  let ?st1 = "scan_line ?st0 hline"
  have "current_heading scan_start = None \<longrightarrow> buffer scan_start = []"
    by (simp add: scan_start_def)
  then have inv: "current_heading ?st0 = None \<longrightarrow> buffer ?st0 = []"
    by (rule foldl_scan_buffer_inv)
  from h inv have st1: "current_heading ?st1 = Some t" "buffer ?st1 = []"
    by (auto simp: scan_line_heading split: option.split)
  from st1(1) body have st2: "foldl scan_line ?st1 body = ?st1\<lparr>buffer := buffer ?st1 @ body\<rparr>"
    by (rule foldl_scan_body)
  let ?st2 = "?st1\<lparr>buffer := body\<rparr>"
  from st1(1) have "current_heading ?st2 = Some t" by simp
  then have "finish (foldl scan_line ?st2 rest) t = Some (strip (join [10] (buffer ?st2)))"
    using rest last by (rule finish_current_heading)
  moreover have "foldl scan_line scan_start (splitlines file_text) = foldl scan_line ?st2 rest"
    using st2 st1(2) by (simp add: lines)
  ultimately show ?thesis by (simp add: parse_sections_def)
qed

lemma dom_finish_foldl:
  "dom (finish (foldl scan_line st ls)) =
     dom (sections st) \<union> set_option (current_heading st)
       \<union> {t. \<exists>l\<in>set ls. heading_title l = Some t}"
proof (induction ls arbitrary: st)
  case Nil
  show ?case by (auto simp: finish_def split: option.splits)
next
  case (Cons l ls)
  show ?case
  proof (cases "heading_title l")
    case None
    then show ?thesis
      by (auto simp: Cons.IH scan_line_body split: option.splits)
  next
    case (Some t')
    then show ?thesis
      by (auto simp: Cons.IH scan_line_heading split: option.splits if_splits)
  qed
qed

lemma dom_parse_sections:
  "dom (parse_sections file_text) = {t. \<exists>l\<in>set (splitlines file_text). heading_title l = Some t}"
  by (simp add: parse_sections_def dom_finish_foldl scan_start_def)

section \<open>The branches of \<open>build_payload\<close>\<close>

lemma missing_headings_set:
  "set (missing_headings secs) = {h \<in> set required_headings. secs h = None}"
  by (auto simp: missing_headings_def)

lemma distinct_required_headings: "distinct required_headings"
  by (simp add: required_headings_def str_defs)

lemma missing_headings_Nil_iff:
  "missing_headings secs = [] \<longleftrightarrow> (\<forall>h\<in>set required_headings. secs h \<noteq> None)"
  by (auto simp: missing_headings_def filter_empty_conv)

lemma build_payload_after_check:
  assumes "missing_headings (parse_sections file_text) = []"
  shows "build_payload L stem file_text =
    (let secs = parse_sections file_text;
         attributes = parse_attributes (the (secs h_attributes))
     in case attributes (ustr ''question_type'') of
          None \<Rightarrow> Inl (ValueError (missing_attribute_message (ustr ''question_type'')))
        | Some qtype \<Rightarrow>
           (case attributes (ustr ''accuracy'') of
              None \<Rightarrow> Inl (ValueError (missing_attribute_message (ustr ''accuracy'')))
            | Some acc_text \<Rightarrow>
               (case py_float L acc_text of
                  None \<Rightarrow> Inl (ValueError (ustr ''Accuracy must be a float.''))
                | Some acc \<Rightarrow>
                   (if markdown_to_html L (the (secs h_question)) = []
                    then Inl (ValueError (ustr ''Question section cannot be empty.''))
                    else if markdown_to_text_list L (the (secs h_answer)) = []
                    then Inl (ValueError (ustr ''Answer section cannot be empty.''))
                    else
                      (case py_int L stem of
                         None \<Rightarrow> Inl (IntValueError stem)
                       | Some qid \<Rightarrow>
                           Inr \<lparr>question_id = qid,
                                question_type = qtype,
                                accuracy = acc,
                                question = markdown_to_html L (the (secs h_question)),
                                answer = markdown_to_text_list L (the (secs h_answer)),
                                analysis = markdown_to_html_list L (the (secs h_analysis)),
                                explanation = markdown_to_html_list L (the (secs h_explanation)),
                                knowledge = markdown_to_text_list L (the (secs h_knowledge))\<rparr>)))))"
  using assms by (simp add: build_payload_def Let_def split: option.split)

lemma build_payload_missing:
  assumes "missing_headings (parse_sections file_text) \<noteq> []"
  shows "build_payload L stem file_text =
    Inl (ValueError (missing_sections_message (missing_headings (parse_sections file_text))))"
  using assms by (simp add: build_payload_def Let_def)

lemma build_payload_error_cases:
  assumes "build_payload L stem file_text = Inl e"
  shows "e = ValueError (missing_sections_message (missing_headings (parse_sections file_text)))
       \<or> e = ValueError (missing_attribute_message (ustr ''question_type''))
       \<or> e = ValueError (missing_attribute_message (ustr ''accuracy''))
       \<or> e = ValueError (ustr ''Accuracy must be a float.'')
       \<or> e = ValueError (ustr ''Question section cannot be empty.'')
       \<or> e = ValueError (ustr ''Answer section cannot be empty.'')
       \<or> e = IntValueError stem"
proof (cases "missing_headings (parse_sections file_text) = []")
  case False
  with assms show ?thesis by (simp add: build_payload_missing)
next
  case True
  from assms show ?thesis
    unfolding build_payload_after_check [OF True] Let_def
    by (auto split: option.splits if_splits)
qed

lemma main_success_inserts:
  assumes "build_payload L stem file_text = Inr p"
  shows "insert_calls (snd (main L (Some d) stem file_text w)) = insert_calls w + 1"
  using assms by (simp add: main_def insert_question_def Let_def)

lemma html_list_blank_only_fallback:
  assumes "f \<in> set (markdown_to_html_list L source)" and "strip f = []"
  shows "markdown_to_html_list L source = [[]] \<and> strip source \<noteq> []
       \<and> strip (render L (strip source)) = []"
proof (cases "strip source = []")
  case True
  with assms(1) show ?thesis by (simp add: markdown_to_html_list_def)
next
  case False
  let ?html = "strip (render L (strip source))"
  let ?cleaned = "map strip (filter (\<lambda>fragment. strip fragment \<noteq> [])
      (concat (map (html_fragments L) (soup_contents L ?html))))"
  have r: "markdown_to_html_list L source = (if ?cleaned \<noteq> [] then ?cleaned else [?html])"
    using False by (simp add: markdown_to_html_list_def Let_def)
  have nb: "\<forall>g\<in>set ?cleaned. strip g \<noteq> []" by (auto simp: strip_idem)
  show ?thesis
  proof (cases "?cleaned = []")
    case True
    with r assms have "strip ?html = []" by simp
    then have "?html = []" by (simp add: strip_idem)
    with r True False show ?thesis by simp
  next
    case ne: False
    with r assms(1) have "f \<in> set ?cleaned" by simp
    with nb assms(2) show ?thesis by blast
  qed
qed

section \<open>The sample documents and libraries, evaluated\<close>

lemma lines_example: "splitlines doc_example =
  [ustr ''# '' @ h_question, ustr ''What is 2+2?'', [],
   ustr ''# '' @ h_answer, ustr ''4'', [],
   ustr ''# '' @ h_analysis, [], ustr ''# '' @ h_explanation, [], ustr ''# '' @ h_knowledge, [],
   ustr ''# '' @ h_attributes, ustr ''question_type: numeric'', ustr ''accuracy: 0.95'']"
  by (simp add: doc_example_def str_defs is_linebreak_def)

lemma secs_example:
  "parse_sections doc_example h_question = Some (ustr ''What is 2+2?'')"
  "parse_sections doc_example h_answer = Some (ustr ''4'')"
  "parse_sections doc_example h_analysis = Some []"
  "parse_sections doc_example h_explanation = Some []"
  "parse_sections doc_example h_knowledge = Some []"
  "parse_sections doc_example h_attributes =
     Some (ustr ''question_type: numeric'' @ [10] @ ustr ''accuracy: 0.95'')"
  unfolding parse_sections_def lines_example
  by (simp_all add: str_defs scan_defs)

lemma missing_example: "missing_headings (parse_sections doc_example) = []"
  by (simp add: missing_headings_def required_headings_def secs_example)

lemma attrs_example:
  "parse_attributes (ustr ''question_type: numeric'' @ [10] @ ustr ''accuracy: 0.95'')
     (ustr ''question_type'') = Some (ustr ''numeric'')"
  "parse_attributes (ustr ''question_type: numeric'' @ [10] @ ustr ''accuracy: 0.95'')
     (ustr ''accuracy'') = Some (ustr ''0.95'')"
  by (simp_all add: parse_attributes_def attribute_line_def ustr_def is_linebreak_def strip_def
      isspace_def)

lemma float_example: "py_float sample_library (ustr ''0.95'') = Some (95 / 100)"
  by (simp add: sample_library_def sample_float_def ustr_def is_digit_def digits_value_def)

lemma int_example: "py_int sample_library (ustr ''42'') = Some 42"
  by (simp add: sample_library_def sample_int_def ustr_def is_digit_def digits_value_def)

lemma html_example:
  "markdown_to_html sample_library (ustr ''What is 2+2?'') = ustr ''<p>What is 2+2?</p>''"
  by (simp add: markdown_to_html_def sample_library_def sample_render_def ustr_def strip_def
      isspace_def)

lemma text_example: "markdown_to_text_list sample_library (ustr ''4'') = [ustr ''4'']"
  by (simp add: markdown_to_text_list_def cleaned_fragments_def raw_lines_def sample_library_def
      sample_render_def sample_soup_contents_def sample_get_text_def ustr_def strip_def
      isspace_def is_linebreak_def)

lemma lines_no_attributes: "splitlines doc_no_attributes =
  [ustr ''# '' @ h_question, ustr ''What is 2+2?'', [],
   ustr ''# '' @ h_answer, ustr ''4'', [],
   ustr ''# '' @ h_analysis, [], ustr ''# '' @ h_explanation, [], ustr ''# '' @ h_knowledge, [],
   ustr ''# '' @ h_attributes]"
  by (simp add: doc_no_attributes_def str_defs is_linebreak_def)

lemma secs_no_attributes:
  "parse_sections doc_no_attributes h_question = Some (ustr ''What is 2+2?'')"
  "parse_sections doc_no_attributes h_answer = Some (ustr ''4'')"
  "parse_sections doc_no_attributes h_analysis = Some []"
  "parse_sections doc_no_attributes h_explanation = Some []"
  "parse_sections doc_no_attributes h_knowledge = Some []"
  "parse_sections doc_no_attributes h_attributes = Some []"
  unfolding parse_sections_def lines_no_attributes
  by (simp_all add: str_defs scan_defs)

lemma missing_no_attributes: "missing_headings (parse_sections doc_no_attributes) = []"
  by (simp add: missing_headings_def required_headings_def secs_no_attributes)

lemma parse_attributes_Nil: "parse_attributes [] = Map.empty"
  by (simp add: parse_attributes_def)





lemma link_definition_facts:
  "strip (ustr ''[foo]: /url'') = ustr ''[foo]: /url''"
  "ustr ''[foo]: /url'' \<noteq> []"
  "strip (render sample_library (ustr ''[foo]: /url'')) = []"
  "soup_contents sample_library [] = []"
  "soup_get_text sample_library [] = []"
  "raw_lines (ustr ''[foo]: /url'') = [ustr ''[foo]: /url'']"
  by (simp_all add: sample_library_def sample_render_def sample_soup_contents_def
      sample_get_text_def raw_lines_def ustr_def strip_def isspace_def is_linebreak_def)

lemma link_definition_fragments:
  "cleaned_fragments sample_library (ustr ''[foo]: /url'') = []"
  by (simp add: cleaned_fragments_def link_definition_facts)

section \<open>The claims\<close>

text \<open>
  Claim C1 (the end-to-end example). Take a file whose sections are: Question
  \<^verbatim>\<open>What is 2+2?\<close>, Answer \<^verbatim>\<open>4\<close>, Analysis, Explanation and Knowledge empty, and
  Attributes the two lines \<^verbatim>\<open>question_type: numeric\<close> and \<^verbatim>\<open>accuracy: 0.95\<close>; its
  name is \<^verbatim>\<open>42.md\<close>, so the stem is \<^verbatim>\<open>42\<close>. Let the libraries answer as they do on
  these inputs: the question renders to \<^verbatim>\<open><p>What is 2+2?</p>\<close>, the rendered answer
  parses to one \<^verbatim>\<open>p\<close> tag whose text is \<^verbatim>\<open>4\<close>, \<^verbatim>\<open>float("0.95")\<close> is \<open>acc\<close> and
  \<^verbatim>\<open>int("42")\<close> is 42. Then \<open>build_payload\<close> returns exactly the record of the example.
\<close>

theorem example_payload:
  assumes secs:
      "parse_sections file_text h_question = Some (ustr ''What is 2+2?'')"
      "parse_sections file_text h_answer = Some (ustr ''4'')"
      "parse_sections file_text h_analysis = Some []"
      "parse_sections file_text h_explanation = Some []"
      "parse_sections file_text h_knowledge = Some []"
      "parse_sections file_text h_attributes =
         Some (ustr ''question_type: numeric'' @ [10] @ ustr ''accuracy: 0.95'')"
    and lib:
      "strip (render L (ustr ''What is 2+2?'')) = ustr ''<p>What is 2+2?</p>''"
      "soup_contents L (strip (render L (ustr ''4''))) =
         [Tag (ustr ''p'') [] [NavigableString (ustr ''4'')]]"
      "node_get_text L (Tag (ustr ''p'') [] [NavigableString (ustr ''4'')]) = ustr ''4''"
      "py_float L (ustr ''0.95'') = Some acc"
      "py_int L (ustr ''42'') = Some 42"
  shows "build_payload L (ustr ''42'') file_text =
    Inr \<lparr>question_id = 42,
         question_type = ustr ''numeric'',
         accuracy = acc,
         question = ustr ''<p>What is 2+2?</p>'',
         answer = [ustr ''4''],
         analysis = [],
         explanation = [],
         knowledge = []\<rparr>"
proof -
  have m: "missing_headings (parse_sections file_text) = []"
    by (simp add: missing_headings_def required_headings_def secs)
  have s: "strip (ustr ''What is 2+2?'') = ustr ''What is 2+2?''" "strip (ustr ''4'') = ustr ''4''"
    "strip [] = []"
    by (simp_all add: strip_def ustr_def isspace_def)
  have ne: "ustr ''What is 2+2?'' \<noteq> []" "ustr ''4'' \<noteq> []" "ustr ''<p>What is 2+2?</p>'' \<noteq> []"
    "ustr ''p'' \<noteq> ustr ''ul''" "ustr ''p'' \<noteq> ustr ''ol''"
    by (simp_all add: ustr_def)
  have q: "markdown_to_html L (ustr ''What is 2+2?'') = ustr ''<p>What is 2+2?</p>''"
    by (simp add: markdown_to_html_def s ne lib)
  have r: "raw_lines (ustr ''4'') = [ustr ''4'']"
    by (simp add: raw_lines_def ustr_def is_linebreak_def strip_def isspace_def)
  have c: "cleaned_fragments L (ustr ''4'') = [ustr ''4'']"
    by (simp add: cleaned_fragments_def lib ne)
  have a: "markdown_to_text_list L (ustr ''4'') = [ustr ''4'']"
    by (simp add: markdown_to_text_list_def s ne c r)
  have e: "markdown_to_html_list L [] = []" "markdown_to_text_list L [] = []"
    by (simp_all add: markdown_to_html_list_def markdown_to_text_list_def s)
  show ?thesis
    using attrs_example
    by (simp add: build_payload_after_check [OF m] Let_def secs lib q a e ne)
qed

theorem example_payload_witness:
  "build_payload sample_library (ustr ''42'') doc_example =
    Inr \<lparr>question_id = 42,
         question_type = ustr ''numeric'',
         accuracy = 95 / 100,
         question = ustr ''<p>What is 2+2?</p>'',
         answer = [ustr ''4''],
         analysis = [],
         explanation = [],
         knowledge = []\<rparr>"
proof -
  have "strip (render sample_library (ustr ''What is 2+2?'')) = ustr ''<p>What is 2+2?</p>''"
    by (simp add: sample_library_def sample_render_def ustr_def strip_def isspace_def)
  moreover have "soup_contents sample_library (strip (render sample_library (ustr ''4''))) =
         [Tag (ustr ''p'') [] [NavigableString (ustr ''4'')]]"
    by (simp add: sample_library_def sample_render_def sample_soup_contents_def ustr_def
        strip_def isspace_def)
  moreover have "node_get_text sample_library (Tag (ustr ''p'') [] [NavigableString (ustr ''4'')])
      = ustr ''4''"
    by (simp add: sample_library_def sample_get_text_def ustr_def strip_def isspace_def)
  ultimately show ?thesis
    using float_example int_example by (intro example_payload secs_example)
qed

text \<open>
  Claim C2, as amended. The claim as written (six headings and non-empty Question and
  Answer sections are enough for \<open>build_payload\<close> to return) fails, as the
  counterexample after the theorem shows: a file with the six headings, a Question and an
  Answer, and an empty Attributes section. What the code guarantees: for a document
  with all six required headings, whose Attributes section gives \<^verbatim>\<open>question_type\<close> and an
  \<^verbatim>\<open>accuracy\<close> that \<^verbatim>\<open>float\<close> accepts, whose Question section renders to non-empty
  markup and whose Answer section gives at least one fragment, and for a stem that
  \<^verbatim>\<open>int\<close> accepts with value \<open>n\<close>, \<open>build_payload\<close> returns a record and its
  \<open>question_id\<close> is \<open>n\<close>.
\<close>

theorem build_payload_returns:
  assumes "missing_headings (parse_sections file_text) = []"
    and "parse_sections file_text h_attributes = Some attr_body"
    and "parse_sections file_text h_question = Some question_body"
    and "parse_sections file_text h_answer = Some answer_body"
    and "parse_attributes attr_body (ustr ''question_type'') = Some qtype"
    and "parse_attributes attr_body (ustr ''accuracy'') = Some acc_text"
    and "py_float L acc_text = Some acc"
    and "markdown_to_html L question_body \<noteq> []"
    and "markdown_to_text_list L answer_body \<noteq> []"
    and "py_int L stem = Some n"
  shows "\<exists>p. build_payload L stem file_text = Inr p \<and> question_id p = n"
  using assms by (simp add: build_payload_after_check Let_def)

theorem build_payload_returns_witness:
  "\<exists>p. build_payload sample_library (ustr ''42'') doc_example = Inr p \<and> question_id p = 42"
proof -
  have "markdown_to_html sample_library (ustr ''What is 2+2?'') \<noteq> []"
    "markdown_to_text_list sample_library (ustr ''4'') \<noteq> []"
    by (simp_all add: html_example text_example) (simp add: ustr_def)
  from build_payload_returns [OF missing_example secs_example(6,1,2) attrs_example float_example
      this int_example]
  show ?thesis .
qed

theorem build_payload_returns_counterexample:
  "missing_headings (parse_sections doc_no_attributes) = []
   \<and> parse_sections doc_no_attributes h_question = Some (ustr ''What is 2+2?'')
   \<and> parse_sections doc_no_attributes h_answer = Some (ustr ''4'')
   \<and> build_payload sample_library (ustr ''42'') doc_no_attributes =
       Inl (ValueError (ustr ''Missing attribute: '' @ [39] @ ustr ''question_type'' @ [39]))"
  by (simp add: secs_no_attributes missing_no_attributes parse_attributes_Nil
      build_payload_after_check missing_attribute_message_def)

text \<open>
  Claim C3. When at least one of the six required headings is not a key of the Section
  Map, \<open>build_payload\<close> fails with the \<^verbatim>\<open>ValueError\<close> whose message is
  \<^verbatim>\<open>Markdown file is missing sections: \<close> followed by the names of the missing headings,
  sorted and separated by a comma and a space. The names listed are exactly the required
  headings that are missing, each once.
\<close>

theorem missing_sections_error:
  assumes "\<exists>h\<in>set required_headings. parse_sections file_text h = None"
  shows "build_payload L stem file_text =
           Inl (ValueError (ustr ''Markdown file is missing sections: '' @
                  join (ustr '', '') (sort (missing_headings (parse_sections file_text)))))
       \<and> set (sort (missing_headings (parse_sections file_text)))
           = {h \<in> set required_headings. parse_sections file_text h = None}
       \<and> distinct (sort (missing_headings (parse_sections file_text)))
       \<and> sorted (sort (missing_headings (parse_sections file_text)))"
proof -
  from assms have "missing_headings (parse_sections file_text) \<noteq> []"
    by (simp add: missing_headings_Nil_iff)
  then have "build_payload L stem file_text =
           Inl (ValueError (ustr ''Markdown file is missing sections: '' @
                  join (ustr '', '') (sort (missing_headings (parse_sections file_text)))))"
    by (simp add: build_payload_def Let_def missing_sections_message_def)
  moreover have "distinct (missing_headings (parse_sections file_text))"
    using distinct_required_headings by (simp add: missing_headings_def)
  ultimately show ?thesis by (simp add: missing_headings_set)
qed

theorem missing_sections_error_witness:
  "build_payload sample_library (ustr ''42'') (heading_line h_question @ ustr ''Q'') =
     Inl (ValueError (ustr ''Markdown file is missing sections: '' @
       join (ustr '', '') [h_analysis, h_attributes, h_knowledge, h_answer, h_explanation]))"
proof -
  let ?doc = "heading_line h_question @ ustr ''Q''"
  have l: "splitlines ?doc = [ustr ''# '' @ h_question, ustr ''Q'']"
    by (simp add: str_defs is_linebreak_def)
  have m: "missing_headings (parse_sections ?doc) =
      [h_answer, h_analysis, h_explanation, h_knowledge, h_attributes]"
    unfolding parse_sections_def l missing_headings_def required_headings_def
    by (simp add: str_defs scan_defs)
  then have e: "\<exists>h\<in>set required_headings. parse_sections ?doc h = None"
    using missing_headings_Nil_iff [of "parse_sections ?doc"] by auto
  have s: "sort [h_answer, h_analysis, h_explanation, h_knowledge, h_attributes] =
      [h_analysis, h_attributes, h_knowledge, h_answer, h_explanation]"
    by (simp add: str_defs)
  from missing_sections_error [OF e, of sample_library "ustr ''42''"] show ?thesis
    by (simp only: m s)
qed

text \<open>
  Claim C4. In \<open>markdown_to_text_list\<close>, when the node-walking step gives exactly one
  fragment and the raw source has more than one non-blank line, the result is the list of
  stripped non-blank lines of the source. In particular the two lines \<^verbatim>\<open>A\<close> and
  \<^verbatim>\<open>B\<close>, with one line feed between them, give the two fragments \<^verbatim>\<open>A\<close> and
  \<^verbatim>\<open>B\<close> whenever the renderer makes at most one fragment of them (markdown-it makes
  one paragraph of them).
\<close>

theorem single_fragment_prefers_raw_lines:
  "(length (cleaned_fragments L (strip source)) = 1 \<and> 1 < length (raw_lines source)
      \<longrightarrow> markdown_to_text_list L source = raw_lines source)
   \<and> (length (cleaned_fragments L (ustr ''A'' @ [10] @ ustr ''B'')) \<le> 1
      \<longrightarrow> markdown_to_text_list L (ustr ''A'' @ [10] @ ustr ''B'') = [ustr ''A'', ustr ''B''])"
proof (intro conjI impI)
  assume a: "length (cleaned_fragments L (strip source)) = 1 \<and> 1 < length (raw_lines source)"
  then have "raw_lines (strip source) \<noteq> []" by (auto simp: raw_lines_strip)
  then have "strip source \<noteq> []" using raw_lines_Nil by auto
  moreover from a have "cleaned_fragments L (strip source) \<noteq> []" by auto
  ultimately show "markdown_to_text_list L source = raw_lines source"
    using a by (simp add: markdown_to_text_list_def raw_lines_strip)
next
  let ?s = "ustr ''A'' @ [10] @ ustr ''B''"
  assume a: "length (cleaned_fragments L ?s) \<le> 1"
  have s: "strip ?s = ?s" by (simp add: strip_def ustr_def isspace_def)
  have r: "raw_lines ?s = [ustr ''A'', ustr ''B'']"
    by (simp add: raw_lines_def ustr_def is_linebreak_def strip_def isspace_def)
  have n: "?s \<noteq> []" by (simp add: ustr_def)
  from a have "cleaned_fragments L ?s = [] \<or> length (cleaned_fragments L ?s) = 1"
    by (cases "cleaned_fragments L ?s") auto
  then show "markdown_to_text_list L ?s = [ustr ''A'', ustr ''B'']"
    unfolding markdown_to_text_list_def Let_def s r using n by auto
qed

theorem single_fragment_prefers_raw_lines_witness:
  "cleaned_fragments sample_library (strip (ustr ''A'' @ [10] @ ustr ''B''))
      = [ustr ''A'' @ [10] @ ustr ''B'']
   \<and> raw_lines (ustr ''A'' @ [10] @ ustr ''B'') = [ustr ''A'', ustr ''B'']
   \<and> markdown_to_text_list sample_library (ustr ''A'' @ [10] @ ustr ''B'')
      = [ustr ''A'', ustr ''B'']"
proof -
  let ?s = "ustr ''A'' @ [10] @ ustr ''B''"
  have s: "strip ?s = ?s" by (simp add: strip_def ustr_def isspace_def)
  have c: "cleaned_fragments sample_library ?s = [?s]"
    by (simp add: cleaned_fragments_def sample_library_def sample_render_def
        sample_soup_contents_def sample_get_text_def ustr_def strip_def isspace_def)
  have r: "raw_lines ?s = [ustr ''A'', ustr ''B'']"
    by (simp add: raw_lines_def ustr_def is_linebreak_def strip_def isspace_def)
  from single_fragment_prefers_raw_lines [of sample_library ?s] c r s
  show ?thesis by simp
qed

text \<open>
  Claim C5, as amended. The claim as written (no rendered fragment and at least one
  non-blank raw line give the raw lines, also for exactly one raw line) fails, as the
  counterexample after the theorem shows: a lone link reference definition has one raw
  line and no fragment, and the result is empty. What the code does, for a source that is not
  blank and on which the node-walking step gives no fragment: there is at least one
  non-blank raw line; with more than one, the result is the list of stripped non-blank raw
  lines; with exactly one, the result is the plain text of the whole rendered document
  as a single fragment when that text is not empty, and the empty list otherwise.
\<close>

theorem no_fragments_result:
  assumes "strip source \<noteq> []" and "cleaned_fragments L (strip source) = []"
  shows "raw_lines source \<noteq> []
       \<and> markdown_to_text_list L source =
           (if 1 < length (raw_lines source) then raw_lines source
            else if soup_get_text L (soup_contents L (strip (render L (strip source)))) \<noteq> []
            then [soup_get_text L (soup_contents L (strip (render L (strip source))))]
            else [])"
  using assms raw_lines_nonempty [of source]
  by (simp add: markdown_to_text_list_def Let_def raw_lines_strip)

theorem no_fragments_result_witness:
  "raw_lines (ustr ''[foo]: /url'') \<noteq> []
   \<and> markdown_to_text_list sample_library (ustr ''[foo]: /url'') = []"
  using no_fragments_result [of "ustr ''[foo]: /url''" sample_library]
  by (simp add: link_definition_facts link_definition_fragments)

theorem no_fragments_counterexample:
  "cleaned_fragments sample_library (strip (ustr ''[foo]: /url'')) = []
   \<and> raw_lines (ustr ''[foo]: /url'') = [ustr ''[foo]: /url'']
   \<and> markdown_to_text_list sample_library (ustr ''[foo]: /url'') = []
   \<and> markdown_to_text_list sample_library (ustr ''[foo]: /url'')
       \<noteq> raw_lines (ustr ''[foo]: /url'')"
  by (simp add: markdown_to_text_list_def link_definition_facts link_definition_fragments)

text \<open>
  Claim C6 says that no list returned by \<open>markdown_to_html_list\<close> holds an empty or
  blank string, the whole-document fallback being used only for a non-empty rendering.
  The last line of the function, \<^verbatim>\<open>return cleaned or [html]\<close>, does not look at
  \<^verbatim>\<open>html\<close>: for a source that is not blank and renders to the empty string (a lone
  link reference definition does), the result is the list holding the empty string.
  \<open>markdown_to_text_list\<close> makes the test that is missing here
  (\<^verbatim>\<open>[fallback] if fallback else []\<close>). Lemma \<open>html_list_blank_only_fallback\<close> shows
  that this is the only way a blank string gets into the result.
\<close>

theorem html_list_empty_fragment:
  assumes "strip source \<noteq> []"
    and "strip (render L (strip source)) = []"
    and "soup_contents L [] = []"
  shows "markdown_to_html_list L source = [[]]"
  using assms by (simp add: markdown_to_html_list_def)

theorem html_list_empty_fragment_witness:
  "markdown_to_html_list sample_library (ustr ''[foo]: /url'') = [[]]"
  using html_list_empty_fragment [of "ustr ''[foo]: /url''" sample_library]
  by (simp add: link_definition_facts)




text \<open>
  Claim C8. The Section Map binds a title \<open>t\<close> to \<open>v\<close> exactly when the lines of the
  document split into: any lines \<open>before\<close> (earlier sections, also earlier ones with the
  same title), a heading line with title \<open>t\<close>, the lines \<open>body\<close> up to the next heading or
  the end, and the \<open>rest\<close> in which no heading has title \<open>t\<close>; and \<open>v\<close> is \<open>body\<close> joined
  by line feeds and stripped. So the last occurrence of a title wins, and every stored
  body is the joined and stripped buffer.
\<close>

theorem last_heading_wins:
  "parse_sections file_text t = Some v \<longleftrightarrow>
     (\<exists>before hline body rest.
        splitlines file_text = before @ [hline] @ body @ rest
        \<and> heading_title hline = Some t
        \<and> (\<forall>l\<in>set body. heading_title l = None)
        \<and> (rest = [] \<or> heading_title (hd rest) \<noteq> None)
        \<and> (\<forall>l\<in>set rest. heading_title l \<noteq> Some t)
        \<and> v = strip (join [10] body))"
proof
  assume v: "parse_sections file_text t = Some v"
  then have "t \<in> dom (parse_sections file_text)" by auto
  then have "\<exists>l\<in>set (splitlines file_text). heading_title l = Some t"
    by (simp add: dom_parse_sections)
  from split_list_last_prop [OF this]
  obtain before hline after where s: "splitlines file_text = before @ hline # after"
    "heading_title hline = Some t" "\<forall>l\<in>set after. heading_title l \<noteq> Some t"
    by blast
  let ?body = "takeWhile (\<lambda>l. heading_title l = None) after"
  let ?rest = "dropWhile (\<lambda>l. heading_title l = None) after"
  have 1: "splitlines file_text = before @ [hline] @ ?body @ ?rest" using s(1) by simp
  have 2: "\<forall>l\<in>set ?body. heading_title l = None" by (auto dest: set_takeWhileD)
  have 3: "?rest = [] \<or> heading_title (hd ?rest) \<noteq> None"
    using hd_dropWhile [of "\<lambda>l. heading_title l = None" after] by blast
  have 4: "\<forall>l\<in>set ?rest. heading_title l \<noteq> Some t"
    using s(3) by (auto dest: set_dropWhileD)
  from 1 s(2) 2 3 4 have "parse_sections file_text t = Some (strip (join [10] ?body))"
    by (rule parse_sections_last_heading)
  with v have "v = strip (join [10] ?body)" by simp
  with 1 s(2) 2 3 4 show "\<exists>before hline body rest.
        splitlines file_text = before @ [hline] @ body @ rest
        \<and> heading_title hline = Some t
        \<and> (\<forall>l\<in>set body. heading_title l = None)
        \<and> (rest = [] \<or> heading_title (hd rest) \<noteq> None)
        \<and> (\<forall>l\<in>set rest. heading_title l \<noteq> Some t)
        \<and> v = strip (join [10] body)"
    by blast
next
  assume "\<exists>before hline body rest.
        splitlines file_text = before @ [hline] @ body @ rest
        \<and> heading_title hline = Some t
        \<and> (\<forall>l\<in>set body. heading_title l = None)
        \<and> (rest = [] \<or> heading_title (hd rest) \<noteq> None)
        \<and> (\<forall>l\<in>set rest. heading_title l \<noteq> Some t)
        \<and> v = strip (join [10] body)"
  then show "parse_sections file_text t = Some v"
    using parse_sections_last_heading by blast
qed

theorem last_heading_wins_witness:
  "parse_sections doc_duplicate (ustr ''A'') = Some (ustr ''third'' @ [10, 10] @ ustr ''lines'')"
proof -
  let ?before = "[ustr ''# A'', ustr ''first'', ustr ''# B'', ustr ''second'']"
  let ?body = "[ustr ''third'', [], ustr ''lines'']"
  have l: "splitlines doc_duplicate = ?before @ [ustr ''## A''] @ ?body @ []"
    by (simp add: doc_duplicate_def ustr_def is_linebreak_def)
  have h: "heading_title (ustr ''## A'') = Some (ustr ''A'')"
    "\<forall>l\<in>set ?body. heading_title l = None"
    "strip (join [10] ?body) = ustr ''third'' @ [10, 10] @ ustr ''lines''"
    by (simp_all add: heading_title_def heading_pattern_match_def ustr_def strip_def isspace_def)
  have "\<exists>before hline body rest.
        splitlines doc_duplicate = before @ [hline] @ body @ rest
        \<and> heading_title hline = Some (ustr ''A'')
        \<and> (\<forall>l\<in>set body. heading_title l = None)
        \<and> (rest = [] \<or> heading_title (hd rest) \<noteq> None)
        \<and> (\<forall>l\<in>set rest. heading_title l \<noteq> Some (ustr ''A''))
        \<and> ustr ''third'' @ [10, 10] @ ustr ''lines'' = strip (join [10] body)"
    using l h by (intro exI [of _ ?before] exI [of _ "ustr ''## A''"] exI [of _ ?body]
        exI [of _ "[]"]) simp
  then show ?thesis
    using last_heading_wins [of doc_duplicate "ustr ''A''" "ustr ''third'' @ [10, 10] @ ustr ''lines''"]
    by blast
qed

text \<open>
  Claim C9. Whenever \<open>build_payload\<close> fails, \<open>main\<close> ends with that error (or with the
  usage error when no connection string was given) in the world it started in: the table
  is unchanged and \<open>insert_question\<close> was not called. The failure is one of: missing
  sections, a missing attribute, an unparseable accuracy, an empty Question or Answer,
  or a stem that is not an integer.
\<close>

theorem validation_before_storage:
  assumes "build_payload L stem file_text = Inl e"
  shows "main L dsn stem file_text w = (Inl (case dsn of None \<Rightarrow> UsageError | Some d \<Rightarrow> e), w)
       \<and> table (snd (main L dsn stem file_text w)) = table w
       \<and> insert_calls (snd (main L dsn stem file_text w)) = insert_calls w
       \<and> (e = ValueError (missing_sections_message (missing_headings (parse_sections file_text)))
          \<or> e = ValueError (missing_attribute_message (ustr ''question_type''))
          \<or> e = ValueError (missing_attribute_message (ustr ''accuracy''))
          \<or> e = ValueError (ustr ''Accuracy must be a float.'')
          \<or> e = ValueError (ustr ''Question section cannot be empty.'')
          \<or> e = ValueError (ustr ''Answer section cannot be empty.'')
          \<or> e = IntValueError stem)"
proof -
  from assms have "main L dsn stem file_text w =
      (Inl (case dsn of None \<Rightarrow> UsageError | Some d \<Rightarrow> e), w)"
    by (simp add: main_def split: option.split)
  with build_payload_error_cases [OF assms] show ?thesis by simp
qed

theorem validation_before_storage_witness:
  "main sample_library (Some (ustr ''db'')) (ustr ''42'') doc_no_attributes sample_world =
     (Inl (ValueError (ustr ''Missing attribute: '' @ [39] @ ustr ''question_type'' @ [39])),
      sample_world)
   \<and> table (snd (main sample_library (Some (ustr ''db'')) (ustr ''42'') doc_no_attributes
        sample_world)) = Map.empty
   \<and> insert_calls (snd (main sample_library (Some (ustr ''db'')) (ustr ''42'') doc_no_attributes
        sample_world)) = 0"
proof -
  have b: "build_payload sample_library (ustr ''42'') doc_no_attributes =
      Inl (ValueError (ustr ''Missing attribute: '' @ [39] @ ustr ''question_type'' @ [39]))"
    by (simp add: secs_no_attributes missing_no_attributes parse_attributes_Nil
        build_payload_after_check missing_attribute_message_def)
  from validation_before_storage [OF b, of "Some (ustr ''db'')" sample_world]
  show ?thesis by (simp add: sample_world_def)
qed



end
